theory Spec2Isabelle
  imports Main "HOL-Library.FSet" "HOL-Library.Sublist"
begin

section \<open>URL normalisation (scrape\_srilanka.py, thecommonwanderer.py)\<close>

text \<open>
  \<open>urllib.parse.urljoin\<close> belongs to Python's standard library.  Its first two
  statements are \<open>if not base: return url\<close> and \<open>if not url: return base\<close>; everything
  after them (parsing both arguments and merging their components) is taken as the
  parameter \<open>resolve\<close>.
\<close>

definition urljoin :: "(string \<Rightarrow> string \<Rightarrow> string) \<Rightarrow> string \<Rightarrow> string \<Rightarrow> string" where
  "urljoin resolve base url =
     (if base = [] then url else if url = [] then base else resolve base url)"

text \<open>\<open>link.split('#')[0]\<close>: the part of the string before its first \<open>#\<close>.\<close>

definition split_hash_0 :: "string \<Rightarrow> string" where
  "split_hash_0 link = takeWhile (\<lambda>c. c \<noteq> CHR ''#'') link"

text \<open>
  \<open>normalize_url(base, link)\<close> of scrape\_srilanka.py.  The link is \<open>None\<close> when an
  \<open>img\<close> tag has none of the three source attributes; \<open>not link\<close> holds for \<open>None\<close>
  and for the empty string.
\<close>

definition normalize_url ::
  "(string \<Rightarrow> string \<Rightarrow> string) \<Rightarrow> string \<Rightarrow> string option \<Rightarrow> string option" where
  "normalize_url resolve base link =
     (case link of
        None \<Rightarrow> None
      | Some l \<Rightarrow>
          if l = [] then None
          else if prefix ''javascript:'' l \<or> prefix ''mailto:'' l \<or> prefix ''tel:'' l then None
          else Some (urljoin resolve base (split_hash_0 l)))"

text \<open>\<open>normalize_link(base, link)\<close> of thecommonwanderer.py; it is only called on
  \<open>a["href"]\<close>, a string.\<close>

definition normalize_link ::
  "(string \<Rightarrow> string \<Rightarrow> string) \<Rightarrow> string \<Rightarrow> string \<Rightarrow> string option" where
  "normalize_link resolve base link =
     (if link = [] \<or> prefix ''javascript:'' link \<or> prefix ''mailto:'' link then None
      else Some (urljoin resolve base (split_hash_0 link)))"

section \<open>Fetching with retries (ella\_travel\_guide.py)\<close>

text \<open>
  What one call of \<open>self.session.get(url, timeout=15)\<close> can do: return a response with a
  status code and a body, or raise \<open>Timeout\<close>, \<open>ConnectionError\<close> or another exception.
\<close>

datatype response = Status nat string | Timeout | ConnectionError | OtherException

text \<open>The observable actions of \<open>get_page\<close>: \<open>time.sleep(n)\<close> and the HTTP request.\<close>

datatype action = Sleep nat | Get string

text \<open>The tail of the loop body, reached after an exception was caught:
  \<open>if attempt < max_retries - 1: time.sleep(5 * (attempt + 1))\<close>.\<close>

definition backoff :: "nat \<Rightarrow> nat \<Rightarrow> action list" where
  "backoff max_retries attempt =
     (if int attempt < int max_retries - 1 then [Sleep (5 * (attempt + 1))] else [])"

text \<open>
  The body of \<open>for attempt in range(max_retries)\<close>, over the attempts still to run.  The
  server is a function from the attempt number to what the request does.  The result pairs
  the returned page (\<open>None\<close> for Python's \<open>None\<close>) with the actions performed.
  \<open>raise_for_status\<close> raises for a status from 400 to 599, which \<open>except Exception\<close>
  catches.
\<close>

fun attempts ::
  "(nat \<Rightarrow> response) \<Rightarrow> string \<Rightarrow> nat \<Rightarrow> nat list \<Rightarrow> string option \<times> action list" where
  "attempts server url max_retries [] = (None, [])"
| "attempts server url max_retries (attempt # rest) =
     (let pre = [Sleep (2 + attempt), Get url] in
      case server attempt of
        Status code body \<Rightarrow>
          if code = 403 then
            (let (r, acts) = attempts server url max_retries rest in (r, pre @ [Sleep 5] @ acts))
          else if code = 404 then (None, pre)
          else if 400 \<le> code \<and> code < 600 then
            (let (r, acts) = attempts server url max_retries rest
             in (r, pre @ backoff max_retries attempt @ acts))
          else (Some body, pre)
      | _ \<Rightarrow>
          (let (r, acts) = attempts server url max_retries rest
           in (r, pre @ backoff max_retries attempt @ acts)))"

definition get_page :: "(nat \<Rightarrow> response) \<Rightarrow> string \<Rightarrow> nat \<Rightarrow> string option \<times> action list" where
  "get_page server url max_retries = attempts server url max_retries [0..<max_retries]"

text \<open>The number of HTTP requests among the actions.\<close>

definition requests_made :: "action list \<Rightarrow> nat" where
  "requests_made acts = length (filter (\<lambda>a. case a of Get _ \<Rightarrow> True | Sleep _ \<Rightarrow> False) acts)"

text \<open>The failures the retry bound speaks of: a 5xx status, a timeout, a connection error.\<close>

fun retryable :: "response \<Rightarrow> bool" where
  "retryable (Status code body) = (500 \<le> code \<and> code < 600)"
| "retryable Timeout = True"
| "retryable ConnectionError = True"
| "retryable OtherException = False"

section \<open>The robots gate\<close>

text \<open>
  \<open>urllib.robotparser.RobotFileParser\<close> is standard library; the gates of the repository
  depend on three of its fields and on the order in which \<open>can_fetch\<close> reads them.  The
  rule matching that follows them is the field \<open>entries\<close>: a function of user agent and
  URL, \<open>None\<close> when it raises (parsing the URL can).  \<open>last_checked\<close> is the time of
  the last successful parse, \<open>0\<close> for a parser that has read nothing.
\<close>

record robot_parser =
  disallow_all :: bool
  allow_all :: bool
  last_checked :: nat
  entries :: "string \<Rightarrow> string \<Rightarrow> bool option"

definition new_parser :: robot_parser where
  "new_parser =
     \<lparr>disallow_all = False, allow_all = False, last_checked = 0,
      entries = (\<lambda>useragent url. Some True)\<rparr>"

text \<open>
  What \<open>rp.read()\<close> meets: \<open>urlopen\<close> or the decoding of the body raises (anything but an
  \<open>HTTPError\<close>: no connection, a timeout, bytes that are not UTF-8), the server answers
  with an HTTP error status, or the body is read and parsed at time \<open>t\<close> into rules.
\<close>

datatype robots_txt =
  ReadRaises
| HTTPError nat
| Parsed nat "string \<Rightarrow> string \<Rightarrow> bool option"

text \<open>\<open>RobotFileParser.read\<close>; \<open>None\<close> when the exception leaves the method.\<close>

fun rp_read :: "robots_txt \<Rightarrow> robot_parser \<Rightarrow> robot_parser option" where
  "rp_read ReadRaises p = None"
| "rp_read (HTTPError code) p =
     Some (if code = 401 \<or> code = 403 then p\<lparr>disallow_all := True\<rparr>
           else if 400 \<le> code \<and> code < 500 then p\<lparr>allow_all := True\<rparr>
           else p)"
| "rp_read (Parsed t rules) p = Some (p\<lparr>last_checked := t, entries := rules\<rparr>)"

text \<open>\<open>RobotFileParser.can_fetch(useragent, url)\<close>; \<open>None\<close> when it raises.\<close>

definition rp_can_fetch :: "robot_parser \<Rightarrow> string \<Rightarrow> string \<Rightarrow> bool option" where
  "rp_can_fetch p useragent url =
     (if disallow_all p then Some False
      else if allow_all p then Some True
      else if last_checked p = 0 then Some False
      else entries p useragent url)"

definition USER_AGENT :: string where
  "USER_AGENT = ''MyRAGScraper/1.0 (+mailto:animasha237@gmail.com)''"

text \<open>
  scrape\_srilanka.py, lines 28 to 37: the module reads robots.txt once, inside
  \<open>try\<close>; on an exception it prints a warning and goes on with the parser as it is.
\<close>

definition load_robots :: "robots_txt \<Rightarrow> robot_parser" where
  "load_robots robots =
     (case rp_read robots new_parser of None \<Rightarrow> new_parser | Some p \<Rightarrow> p)"

text \<open>\<open>allowed(url)\<close> of scrape\_srilanka.py: an exception of \<open>can_fetch\<close> gives \<open>False\<close>.\<close>

definition allowed :: "robot_parser \<Rightarrow> string \<Rightarrow> bool" where
  "allowed p url = (case rp_can_fetch p USER_AGENT url of None \<Rightarrow> False | Some b \<Rightarrow> b)"

text \<open>
  \<open>can_fetch_url(url_to_check, ua)\<close> of sl\_tourism\_scrape.py: a new parser on every call;
  \<open>set_url\<close>, \<open>read\<close> and \<open>can_fetch\<close> stand in one \<open>try\<close> whose handler returns
  \<open>True\<close>.
\<close>

definition can_fetch_url :: "robots_txt \<Rightarrow> string \<Rightarrow> string \<Rightarrow> bool" where
  "can_fetch_url robots url_to_check ua =
     (case rp_read robots new_parser of
        None \<Rightarrow> True
      | Some p \<Rightarrow> (case rp_can_fetch p ua url_to_check of None \<Rightarrow> True | Some b \<Rightarrow> b))"

text \<open>\<open>can_fetch(url, ua)\<close> of scrape\_ft\_travel.py: the same code under another name.\<close>

definition can_fetch :: "robots_txt \<Rightarrow> string \<Rightarrow> string \<Rightarrow> bool" where
  "can_fetch robots url ua =
     (case rp_read robots new_parser of
        None \<Rightarrow> True
      | Some p \<Rightarrow> (case rp_can_fetch p ua url of None \<Rightarrow> True | Some b \<Rightarrow> b))"

section \<open>The crawler of scrape\_srilanka.py\<close>

text \<open>
  What the crawl loop reads from a parsed page (\<open>BeautifulSoup(resp.text)\<close>): the stripped
  title (empty when there is none), the visible text that \<open>extract_text\<close> returns, for
  every \<open>img\<close> tag the value of \<open>src or data-src or data-lazy-src\<close> (\<open>None\<close> when all
  three are missing), and the \<open>href\<close> of every anchor that has one, in document order.
\<close>

record soup =
  title_tag :: string
  visible_text :: string
  img_srcs :: "string option list"
  hrefs :: "string list"

text \<open>
  What one call of \<open>download_image\<close> meets: \<open>session.get\<close> or \<open>raise_for_status\<close>
  raises; opening the output file raises; writing a chunk raises after the file was
  created; everything succeeds.
\<close>

datatype img_outcome = GetFails | OpenFails | WriteFails | Saved

text \<open>
  The world the crawler runs in: the configuration constants of the module, the parser
  loaded at start-up, the library functions it calls (the rest of \<open>urljoin\<close>,
  \<open>urlparse(url).netloc\<close>, \<open>urlparse(url).path\<close>, \<open>str(abs(hash(url)))\<close>,
  \<open>os.path.splitext\<close>) and the web: what fetching a page URL gives (\<open>None\<close> when
  \<open>session.get\<close> or \<open>raise_for_status\<close> raises) and what downloading an image does.
\<close>

record world =
  MAX_PAGES :: nat
  DOWNLOAD_IMAGES :: bool
  registered_domain :: string
  rp :: robot_parser
  resolve :: "string \<Rightarrow> string \<Rightarrow> string"
  netloc :: "string \<Rightarrow> string"
  url_path :: "string \<Rightarrow> string"
  hash_str :: "string \<Rightarrow> string"
  splitext :: "string \<Rightarrow> string \<times> string"
  session_get :: "string \<Rightarrow> soup option"
  image_get :: "string \<Rightarrow> img_outcome"

definition same_domain :: "world \<Rightarrow> string \<Rightarrow> bool" where
  "same_domain w url = suffix (registered_domain w) (netloc w url)"

text \<open>
  \<open>find_all_links\<close> and \<open>find_all_images\<close> build Python sets.  The order in which a set
  is iterated is fixed by the interpreter; it is modelled as the order of first
  occurrence.
\<close>

definition find_all_links :: "world \<Rightarrow> soup \<Rightarrow> string \<Rightarrow> string list" where
  "find_all_links w sp base =
     remdups (List.map_filter
       (\<lambda>href. case normalize_url (resolve w) base (Some href) of
                  None \<Rightarrow> None
                | Some u \<Rightarrow> if u \<noteq> [] \<and> same_domain w u then Some u else None)
       (hrefs sp))"

definition find_all_images :: "world \<Rightarrow> soup \<Rightarrow> string \<Rightarrow> string list" where
  "find_all_images w sp base =
     remdups (List.map_filter
       (\<lambda>src. case normalize_url (resolve w) base src of
                 None \<Rightarrow> None
               | Some u \<Rightarrow> if u \<noteq> [] then Some u else None)
       (img_srcs sp))"

text \<open>Python's \<open>str(i)\<close> for a natural number, and \<open>os.path.basename\<close> (POSIX).\<close>

fun str_nat :: "nat \<Rightarrow> string" where
  "str_nat n =
     (if n < 10 then [char_of (48 + n)] else str_nat (n div 10) @ [char_of (48 + n mod 10)])"

declare str_nat.simps [simp del]

definition basename :: "string \<Rightarrow> string" where
  "basename p = rev (takeWhile (\<lambda>c. c \<noteq> CHR ''/'') (rev p))"

definition IMAGES_DIR :: string where
  "IMAGES_DIR = ''images''"

text \<open>
  The loop \<open>while os.path.exists(out_path): out_path = f"{base}_{i}{ext}"; i += 1\<close> over the
  paths that exist.
\<close>

function avoid_collisions :: "string list \<Rightarrow> string \<Rightarrow> string \<Rightarrow> nat \<Rightarrow> string \<Rightarrow> string" where
  "avoid_collisions fs base ext i out_path =
     (if out_path \<in> set fs
      then avoid_collisions fs base ext (i + 1) (base @ ''_'' @ str_nat i @ ext)
      else out_path)"
  by pat_completeness auto

lemma str_nat_nonempty: "str_nat n \<noteq> []"
  by (subst str_nat.simps) simp

lemma str_nat_inj: "str_nat n = str_nat m \<Longrightarrow> n = m"
proof (induction n arbitrary: m rule: str_nat.induct)
  case (1 n)
  show ?case
  proof (cases "n < 10")
    case n: True
    show ?thesis
    proof (cases "m < 10")
      case True
      from "1.prems" have "[char_of (48 + n)] = [char_of (48 + m)]"
        by (subst (asm) str_nat.simps, subst (asm) (2) str_nat.simps) (simp add: n True)
      then have "(48 + n) mod 256 = (48 + m) mod 256" by simp
      with n True show ?thesis by simp
    next
      case False
      from "1.prems" have "[char_of (48 + n)] = str_nat (m div 10) @ [char_of (48 + m mod 10)]"
        by (subst (asm) str_nat.simps, subst (asm) (2) str_nat.simps) (simp add: n False)
      then show ?thesis using str_nat_nonempty [of "m div 10"] by simp
    qed
  next
    case n: False
    show ?thesis
    proof (cases "m < 10")
      case True
      from "1.prems" have "str_nat (n div 10) @ [char_of (48 + n mod 10)] = [char_of (48 + m)]"
        by (subst (asm) str_nat.simps, subst (asm) (2) str_nat.simps) (simp add: n True)
      then show ?thesis using str_nat_nonempty [of "n div 10"] by simp
    next
      case False
      from "1.prems" have "str_nat (n div 10) @ [char_of (48 + n mod 10)]
          = str_nat (m div 10) @ [char_of (48 + m mod 10)]"
        by (subst (asm) str_nat.simps, subst (asm) (2) str_nat.simps) (simp add: n False)
      then have a: "str_nat (n div 10) = str_nat (m div 10)"
        and b: "(48 + n mod 10) mod 256 = (48 + m mod 10) mod 256" by simp_all
      from "1.IH" [OF n a] have d: "n div 10 = m div 10" .
      have "n mod 10 < 10" "m mod 10 < 10" by simp_all
      with b have e: "n mod 10 = m mod 10" by simp
      from d e show ?thesis by (metis mult_div_mod_eq)
    qed
  qed
qed

lemma collision_names_finite:
  "finite {j. base @ ''_'' @ str_nat j @ ext \<in> set fs}"
proof -
  have "inj (\<lambda>j. base @ ''_'' @ str_nat j @ ext)"
    by (rule injI) (simp add: str_nat_inj)
  then have "finite ((\<lambda>j. base @ ''_'' @ str_nat j @ ext) -` set fs)"
    by (rule finite_vimageI [OF finite_set])
  then show ?thesis by (simp add: vimage_def)
qed

termination avoid_collisions
proof (relation "measure (\<lambda>(fs, base, ext, i, out_path).
    2 * card {j. i \<le> j \<and> base @ ''_'' @ str_nat j @ ext \<in> set fs}
    + (if out_path \<in> set fs then 1 else 0))", goal_cases)
  case 1
  show ?case by simp
next
  case (2 fs base ext i out_path)
  let ?N = "\<lambda>i. {j. i \<le> j \<and> base @ ''_'' @ str_nat j @ ext \<in> set fs}"
  have fin: "finite (?N i)"
    by (rule finite_subset [OF _ collision_names_finite [of base ext fs]]) auto
  show ?case
  proof (cases "base @ ''_'' @ str_nat i @ ext \<in> set fs")
    case True
    have "?N i = insert i (?N (i + 1))" using True by (auto simp: le_Suc_eq)
    moreover have "i \<notin> ?N (i + 1)" by simp
    moreover have "finite (?N (i + 1))" by (rule finite_subset [OF _ fin]) auto
    ultimately have "card (?N i) = Suc (card (?N (i + 1)))" by (simp del: One_nat_def)
    then show ?thesis using 2 True by simp
  next
    case False
    have "?N (i + 1) = ?N i" using False by (auto simp: le_Suc_eq Suc_le_eq) (metis le_neq_implies_less)
    then show ?thesis using 2 False by simp
  qed
qed

declare avoid_collisions.simps [simp del]

text \<open>
  \<open>download_image(url)\<close> over the paths that exist: the saved path (\<open>None\<close> where the
  handler returns \<open>None\<close>) and the paths that exist afterwards.  The path is computed
  between the request and the opening of the file; computing it has no effect, so the
  model computes it first.
\<close>

definition download_image :: "world \<Rightarrow> string \<Rightarrow> string list \<Rightarrow> string option \<times> string list" where
  "download_image w url fs =
     (let fname = (if basename (url_path w url) \<noteq> [] then basename (url_path w url)
                   else ''img_'' @ take 8 (hash_str w url));
          out_path = IMAGES_DIR @ ''/'' @ fname;
          (base, ext) = splitext w out_path;
          out_path = avoid_collisions fs base ext 1 out_path
      in case image_get w url of
           GetFails \<Rightarrow> (None, fs)
         | OpenFails \<Rightarrow> (None, fs)
         | WriteFails \<Rightarrow> (None, out_path # fs)
         | Saved \<Rightarrow> (Some out_path, out_path # fs))"

text \<open>The loop \<open>for img_url in images\<close> of \<open>crawl\<close>, with the list \<open>downloaded\<close> and the
  existing paths as its state.\<close>

fun download_images ::
  "world \<Rightarrow> string list \<Rightarrow> (string \<times> string) list \<Rightarrow> string list
   \<Rightarrow> (string \<times> string) list \<times> string list" where
  "download_images w [] downloaded fs = (downloaded, fs)"
| "download_images w (img_url # images) downloaded fs =
     (if allowed (rp w) img_url then
        (case download_image w img_url fs of
           (Some saved, fs') \<Rightarrow> download_images w images (downloaded @ [(img_url, saved)]) fs'
         | (None, fs') \<Rightarrow> download_images w images downloaded fs')
      else download_images w images downloaded fs)"

text \<open>One line of the output file.\<close>

record page_record =
  r_url :: string
  r_title :: string
  text_snippet :: string
  all_images :: "string list"
  downloaded_images :: "(string \<times> string) list"
  outbound_links_count :: nat

text \<open>
  The variables of \<open>crawl\<close>, the lines written to \<open>out_f\<close>, the paths that exist in the
  image directory, and (to state properties of the run) the URLs handed to
  \<open>session.get(url, timeout=20)\<close> at line 127, in order.
\<close>

record crawl_state =
  visited :: "string fset"
  q :: "string list"
  pages_crawled :: nat
  out_f :: "page_record list"
  files :: "string list"
  fetched :: "string list"

text \<open>One iteration of the \<open>while\<close> loop (the sleeps left out).\<close>

definition crawl_step :: "world \<Rightarrow> crawl_state \<Rightarrow> crawl_state" where
  "crawl_step w s =
     (case q s of
        [] \<Rightarrow> s
      | url # rest \<Rightarrow>
          (let s = s\<lparr>q := rest\<rparr> in
           if url |\<in>| visited s then s
           else if \<not> same_domain w url then s
           else if \<not> allowed (rp w) url then s\<lparr>visited := finsert url (visited s)\<rparr>
           else
             (case session_get w url of
                None \<Rightarrow>
                  s\<lparr>visited := finsert url (visited s),
                    pages_crawled := pages_crawled s + 1,
                    fetched := fetched s @ [url]\<rparr>
              | Some sp \<Rightarrow>
                  (let images = find_all_images w sp url;
                       links = find_all_links w sp url;
                       (downloaded, fs) =
                         (if DOWNLOAD_IMAGES w \<and> images \<noteq> []
                          then download_images w images [] (files s)
                          else ([], files s));
                       line = \<lparr>r_url = url, r_title = title_tag sp,
                               text_snippet = take 10000 (visible_text sp),
                               all_images = images, downloaded_images = downloaded,
                               outbound_links_count = length links\<rparr>
                   in s\<lparr>out_f := out_f s @ [line],
                        q := q s @ filter (\<lambda>link. link |\<notin>| visited s) links,
                        visited := finsert url (visited s),
                        pages_crawled := pages_crawled s + 1,
                        files := fs,
                        fetched := fetched s @ [url]\<rparr>))))"

text \<open>\<open>while q and pages_crawled < MAX_PAGES\<close>.\<close>

function crawl_loop :: "world \<Rightarrow> crawl_state \<Rightarrow> crawl_state" where
  "crawl_loop w s =
     (if q s \<noteq> [] \<and> pages_crawled s < MAX_PAGES w then crawl_loop w (crawl_step w s) else s)"
  by pat_completeness auto

lemma crawl_step_progress:
  assumes "q s \<noteq> []"
  shows "pages_crawled (crawl_step w s) = pages_crawled s + 1
       \<or> pages_crawled (crawl_step w s) = pages_crawled s \<and> length (q (crawl_step w s)) < length (q s)"
proof -
  from assms obtain url rest where qs: "q s = url # rest" by (cases "q s") auto
  show ?thesis
    by (simp add: crawl_step_def qs Let_def split: option.split prod.split)
qed

termination crawl_loop
proof (relation "inv_image (less_than <*lex*> less_than)
    (\<lambda>(w, s). (MAX_PAGES w - pages_crawled s, length (q s)))", goal_cases)
  case 1
  show ?case by (intro wf_inv_image wf_lex_prod wf_less_than)
next
  case (2 w s)
  then have "q s \<noteq> []" and lt: "pages_crawled s < MAX_PAGES w" by simp_all
  from crawl_step_progress [OF this(1), of w] lt show ?case by auto
qed

declare crawl_loop.simps [simp del]

text \<open>\<open>crawl(start_url)\<close>, started with the paths that exist in the image directory.\<close>

definition initial_state :: "string list \<Rightarrow> string \<Rightarrow> crawl_state" where
  "initial_state fs start_url =
     \<lparr>visited = {||}, q = [start_url], pages_crawled = 0, out_f = [], files = fs, fetched = []\<rparr>"

definition crawl :: "world \<Rightarrow> string list \<Rightarrow> string \<Rightarrow> crawl_state" where
  "crawl w fs start_url = crawl_loop w (initial_state fs start_url)"

section \<open>The crawler of thecommonwanderer.py\<close>

text \<open>
  What \<open>extract_page\<close> reads from the parsed page: the title (empty when there is none),
  the \<open>datetime\<close> of the first \<open>time\<close> tag (empty when there is none), and the main
  content region when one is found: its visible text and, for every \<open>img\<close> in it, the
  value of \<open>src or data-src\<close>.
\<close>

record main_region =
  main_text :: string
  main_imgs :: "string option list"

record cw_soup =
  cw_title :: string
  cw_datetime :: string
  cw_main :: "main_region option"

record cw_record =
  cw_url :: string
  cw_rtitle :: string
  publish_date :: string
  cw_text :: string
  cw_images :: "string list"

text \<open>
  The world of this crawler: its page budget, the parser read at start-up, the library
  functions (the rest of \<open>urljoin\<close>, \<open>tldextract.extract(url).registered_domain\<close>), and the
  web: what the request of \<open>extract_page\<close> gives (\<open>None\<close> when it or \<open>raise_for_status\<close>
  raises) and what the second request of the loop, \<open>requests.get(url)\<close> at line 88, gives:
  the \<open>href\<close>s of the anchors of the page, or \<open>None\<close> when it raises.
\<close>

record cw_world =
  cw_MAX_PAGES :: nat
  cw_rp :: robot_parser
  cw_resolve :: "string \<Rightarrow> string \<Rightarrow> string"
  registered_domain_of :: "string \<Rightarrow> string"
  cw_session_get :: "string \<Rightarrow> cw_soup option"
  requests_get :: "string \<Rightarrow> string list option"

definition BASE_URL :: string where
  "BASE_URL = ''https://www.thecommonwanderer.com''"

definition START_PAGES :: "string list" where
  "START_PAGES = [BASE_URL @ ''/blog/category/Sri+Lanka'', BASE_URL @ ''/sri-lanka'']"

text \<open>\<open>allowed(url)\<close> of thecommonwanderer.py has no handler: \<open>None\<close> when \<open>can_fetch\<close>
  raises.\<close>

definition cw_allowed :: "robot_parser \<Rightarrow> string \<Rightarrow> bool option" where
  "cw_allowed p url = rp_can_fetch p USER_AGENT url"

definition same_site :: "cw_world \<Rightarrow> string \<Rightarrow> bool" where
  "same_site w url = (registered_domain_of w url = registered_domain_of w BASE_URL)"

text \<open>\<open>extract_text(main) if main else ""\<close> and the image loop of \<open>extract_page\<close>.\<close>

definition main_body :: "cw_soup \<Rightarrow> string" where
  "main_body sp = (case cw_main sp of None \<Rightarrow> [] | Some m \<Rightarrow> main_text m)"

definition main_images :: "cw_world \<Rightarrow> string \<Rightarrow> cw_soup \<Rightarrow> string list" where
  "main_images w url sp =
     (case cw_main sp of
        None \<Rightarrow> []
      | Some m \<Rightarrow>
          List.map_filter
            (\<lambda>src. case src of
                      None \<Rightarrow> None
                    | Some x \<Rightarrow> if x \<noteq> [] then Some (urljoin (cw_resolve w) url x) else None)
            (main_imgs m))"

text \<open>\<open>extract_page(url)\<close>; \<open>None\<close> when it raises.\<close>

definition extract_page :: "cw_world \<Rightarrow> string \<Rightarrow> cw_record option" where
  "extract_page w url =
     (case cw_session_get w url of
        None \<Rightarrow> None
      | Some sp \<Rightarrow>
          Some \<lparr>cw_url = url, cw_rtitle = cw_title sp, publish_date = cw_datetime sp,
                cw_text = take 20000 (main_body sp), cw_images = main_images w url sp\<rparr>)"

text \<open>
  The variables of \<open>crawl\<close>, the lines written to \<open>fout\<close>, the URLs handed to
  \<open>extract_page\<close> and those handed to \<open>requests.get\<close> at line 88, and whether an
  exception has left the loop.
\<close>

record cw_state =
  cw_visited :: "string fset"
  cw_q :: "string list"
  fout :: "cw_record list"
  cw_fetched :: "string list"
  cw_refetched :: "string list"
  raised :: bool

text \<open>The links the loop appends to the queue: \<open>link and link not in visited and
  same_site(link)\<close>, one per anchor, repetitions included.\<close>

definition new_links :: "cw_world \<Rightarrow> string fset \<Rightarrow> string \<Rightarrow> string list \<Rightarrow> string list" where
  "new_links w vis url hs =
     List.map_filter
       (\<lambda>href. case normalize_link (cw_resolve w) url href of
                  None \<Rightarrow> None
                | Some link \<Rightarrow>
                    if link \<noteq> [] \<and> link |\<notin>| vis \<and> same_site w link then Some link else None)
       hs"

text \<open>One iteration of the \<open>while\<close> loop (the sleep left out).\<close>

definition cw_step :: "cw_world \<Rightarrow> cw_state \<Rightarrow> cw_state" where
  "cw_step w s =
     (case cw_q s of
        [] \<Rightarrow> s
      | url # rest \<Rightarrow>
          (let s = s\<lparr>cw_q := rest\<rparr> in
           if url |\<in>| cw_visited s \<or> \<not> same_site w url
           then s\<lparr>cw_visited := finsert url (cw_visited s)\<rparr>
           else
             (case cw_allowed (cw_rp w) url of
                None \<Rightarrow> s\<lparr>raised := True\<rparr>
              | Some False \<Rightarrow> s\<lparr>cw_visited := finsert url (cw_visited s)\<rparr>
              | Some True \<Rightarrow>
                  (case extract_page w url of
                     None \<Rightarrow>
                       s\<lparr>cw_visited := finsert url (cw_visited s),
                         cw_fetched := cw_fetched s @ [url]\<rparr>
                   | Some line \<Rightarrow>
                       (let s = s\<lparr>fout := fout s @ [line],
                                   cw_visited := finsert url (cw_visited s),
                                   cw_fetched := cw_fetched s @ [url],
                                   cw_refetched := cw_refetched s @ [url]\<rparr>
                        in case requests_get w url of
                             None \<Rightarrow> s\<lparr>raised := True\<rparr>
                           | Some hs \<Rightarrow>
                               s\<lparr>cw_q := cw_q s @ new_links w (cw_visited s) url hs\<rparr>)))))"

text \<open>\<open>while q and len(visited) < MAX_PAGES\<close>; an exception that nothing catches ends
  the loop as well.\<close>

function cw_loop :: "cw_world \<Rightarrow> cw_state \<Rightarrow> cw_state" where
  "cw_loop w s =
     (if \<not> raised s \<and> cw_q s \<noteq> [] \<and> fcard (cw_visited s) < cw_MAX_PAGES w
      then cw_loop w (cw_step w s) else s)"
  by pat_completeness auto

lemma cw_step_progress:
  assumes "cw_q s \<noteq> []"
  shows "fcard (cw_visited (cw_step w s)) = fcard (cw_visited s) + 1
       \<or> fcard (cw_visited (cw_step w s)) = fcard (cw_visited s)
          \<and> length (cw_q (cw_step w s)) < length (cw_q s)"
proof -
  from assms obtain url rest where qs: "cw_q s = url # rest" by (cases "cw_q s") auto
  show ?thesis
    by (simp add: cw_step_def qs Let_def fcard_finsert_if split: option.split bool.split)
qed

termination cw_loop
proof (relation "inv_image (less_than <*lex*> less_than)
    (\<lambda>(w, s). (cw_MAX_PAGES w - fcard (cw_visited s), length (cw_q s)))", goal_cases)
  case 1
  show ?case by (intro wf_inv_image wf_lex_prod wf_less_than)
next
  case (2 w s)
  then have "cw_q s \<noteq> []" and lt: "fcard (cw_visited s) < cw_MAX_PAGES w" by simp_all
  from cw_step_progress [OF this(1), of w] lt show ?case by auto
qed

declare cw_loop.simps [simp del]

text \<open>\<open>crawl()\<close>.\<close>

definition cw_initial_state :: cw_state where
  "cw_initial_state =
     \<lparr>cw_visited = {||}, cw_q = START_PAGES, fout = [], cw_fetched = [], cw_refetched = [],
      raised = False\<rparr>"

definition cw_crawl :: "cw_world \<Rightarrow> cw_state" where
  "cw_crawl w = cw_loop w cw_initial_state"

section \<open>Invariants of the two loops\<close>


definition cw_fetched_once :: "cw_state \<Rightarrow> bool" where
  "cw_fetched_once s \<longleftrightarrow>
     distinct (cw_fetched s) \<and> set (cw_fetched s) \<subseteq> fset (cw_visited s)
     \<and> distinct (map cw_url (fout s)) \<and> set (map cw_url (fout s)) \<subseteq> fset (cw_visited s)
     \<and> set (cw_refetched s) \<subseteq> set (cw_fetched s)"

section \<open>Two small sites\<close>

text \<open>
  A site to run the first crawler on, with a budget of three pages.  Page \<open>a\<close> links to
  \<open>b\<close>, to its own top, to a path that robots.txt disallows, to \<open>c\<close> and \<open>d\<close> and to a
  mail address, and shows two images, the first of which cannot be fetched.  Page \<open>b\<close> links
  back to \<open>a\<close> and to a fragment of \<open>c\<close>, and carries 10001 characters of text.  Every
  other page fails to load.
\<close>

definition example_rules :: "string \<Rightarrow> string \<Rightarrow> bool option" where
  "example_rules useragent url = Some (\<not> prefix ''http://x.lk/private'' url)"

definition example_pages :: "string \<Rightarrow> soup option" where
  "example_pages url =
     (if url = ''http://x.lk/a'' then
        Some \<lparr>title_tag = ''A'', visible_text = ''alpha'',
              img_srcs = [Some ''http://x.lk/i.png'', Some ''http://x.lk/j.png'', None],
              hrefs = [''http://x.lk/b'', ''#top'', ''http://x.lk/private'', ''http://x.lk/c'',
                       ''http://x.lk/d'', ''mailto:x@x.lk'']\<rparr>
      else if url = ''http://x.lk/b'' then
        Some \<lparr>title_tag = ''B'', visible_text = replicate 10001 CHR ''b'', img_srcs = [],
              hrefs = [''http://x.lk/a'', ''http://x.lk/c#map'']\<rparr>
      else None)"

definition example_world :: world where
  "example_world =
     \<lparr>MAX_PAGES = 3, DOWNLOAD_IMAGES = True, registered_domain = ''x.lk'',
      rp = load_robots (Parsed 1 example_rules),
      resolve = (\<lambda>base url. url),
      netloc = (\<lambda>url. take 4 (drop 7 url)),
      url_path = drop 11,
      hash_str = (\<lambda>url. ''12345678''),
      splitext = (\<lambda>p. (takeWhile (\<lambda>c. c \<noteq> CHR ''.'') p, dropWhile (\<lambda>c. c \<noteq> CHR ''.'') p)),
      session_get = example_pages,
      image_get = (\<lambda>url. if url = ''http://x.lk/i.png'' then GetFails else Saved)\<rparr>"

text \<open>
  A site to run the second crawler on, with a budget of two pages.  The first start page
  carries 20001 characters of text and links to a fragment of the second start page, to a
  telephone number and to \<open>/about\<close>; the second start page fails to load.
\<close>

definition cw_example_pages :: "string \<Rightarrow> cw_soup option" where
  "cw_example_pages url =
     (if url = BASE_URL @ ''/blog/category/Sri+Lanka'' then
        Some \<lparr>cw_title = ''Sri Lanka'', cw_datetime = ''2020-01-01'',
              cw_main = Some \<lparr>main_text = replicate 20001 CHR ''w'',
                               main_imgs = [Some ''/s.jpg'', None, Some []]\<rparr>\<rparr>
      else None)"

definition cw_example_world :: cw_world where
  "cw_example_world =
     \<lparr>cw_MAX_PAGES = 2,
      cw_rp = load_robots (Parsed 1 example_rules),
      cw_resolve = (\<lambda>base url. if prefix ''/'' url then BASE_URL @ url else url),
      registered_domain_of =
        (\<lambda>url. if prefix BASE_URL url then ''thecommonwanderer.com'' else []),
      cw_session_get = cw_example_pages,
      requests_get = (\<lambda>url. Some [''/sri-lanka#guide'', ''tel:+94112426900'', ''/about''])\<rparr>"

section \<open>Properties of the fetcher\<close>

lemma attempts_retryable:
  "\<forall>a \<in> set xs. retryable (server a) \<Longrightarrow>
   attempts server url R xs = (None, concat (map (\<lambda>i. [Sleep (2 + i), Get url] @ backoff R i) xs))"
proof (induction xs)
  case Nil
  then show ?case by simp
next
  case (Cons a xs)
  then have r: "retryable (server a)" by simp
  from Cons have ih: "attempts server url R xs = (None, concat (map (\<lambda>i. [Sleep (2 + i), Get url] @ backoff R i) xs))" by simp
  show ?case
  proof (cases "server a")
    case (Status code body)
    with r have "500 \<le> code" "code < 600" by simp_all
    then show ?thesis using Status ih by simp
  qed (use r ih in simp_all)
qed

lemma requests_made_append: "requests_made (xs @ ys) = requests_made xs + requests_made ys"
  by (simp add: requests_made_def)

lemma requests_made_schedule:
  "requests_made (concat (map (\<lambda>i. [Sleep (2 + i), Get url] @ backoff R i) xs)) = length xs"
  by (induction xs) (simp_all add: requests_made_def backoff_def)

text \<open>
  C3, as the code has it.  When every attempt meets a retryable failure (a 5xx status, a
  timeout, a connection error), \<open>get_page\<close> issues exactly \<open>max_retries\<close> requests (3 by
  default: the first attempt and \<open>max_retries - 1\<close> retries), then returns \<open>None\<close>.  It
  sleeps \<open>2 + attempt\<close> seconds before each request and \<open>5 * (attempt + 1)\<close> seconds after
  each failed attempt but the last.
\<close>

theorem get_page_retry_bound:
  assumes "\<forall>attempt < max_retries. retryable (server attempt)"
  shows "fst (get_page server url max_retries) = None
       \<and> requests_made (snd (get_page server url max_retries)) = max_retries
       \<and> snd (get_page server url max_retries) =
           concat (map (\<lambda>i. [Sleep (2 + i), Get url] @ backoff max_retries i) [0..<max_retries])"
proof -
  have "\<forall>a \<in> set [0..<max_retries]. retryable (server a)" using assms by simp
  then have eq: "get_page server url max_retries =
      (None, concat (map (\<lambda>i. [Sleep (2 + i), Get url] @ backoff max_retries i) [0..<max_retries]))"
    unfolding get_page_def by (rule attempts_retryable)
  have n: "requests_made (concat (map (\<lambda>i. [Sleep (2 + i), Get url] @ backoff max_retries i)
      [0..<max_retries])) = max_retries"
    by (simp only: requests_made_schedule length_upt diff_zero)
  show ?thesis unfolding eq fst_conv snd_conv using n by simp
qed

theorem get_page_retry_bound_witness:
  "fst (get_page (\<lambda>_. Status 503 []) ''u'' 3) = None
   \<and> requests_made (snd (get_page (\<lambda>_. Status 503 []) ''u'' 3)) = 3
   \<and> snd (get_page (\<lambda>_. Status 503 []) ''u'' 3) =
       [Sleep 2, Get ''u'', Sleep 5, Sleep 3, Get ''u'', Sleep 10, Sleep 4, Get ''u'']"
proof -
  have h: "\<forall>attempt < 3. retryable ((\<lambda>_. Status 503 []) attempt)" by simp
  have u: "[0..<3] = [0, 1, 2]" by code_simp
  from get_page_retry_bound [OF h, of "''u''"] show ?thesis
    unfolding u by (simp add: backoff_def requests_made_def)
qed

text \<open>
  C3 as stated asks for \<open>R + 1\<close> requests with \<open>R = 3\<close>: on a server that answers 500 to
  every request the default call makes three requests, not four.
\<close>

theorem get_page_retry_counterexample:
  "requests_made (snd (get_page (\<lambda>_. Status 500 []) ''https://www.tripadvisor.com/x'' 3)) \<noteq> 3 + 1"
proof -
  have u: "[0..<3] = [0, 1, 2]" by code_simp
  show ?thesis unfolding get_page_def u by (simp add: requests_made_def backoff_def)
qed

section \<open>The two small sites, run\<close>

lemmas example_simps =
  crawl_step_def example_world_def example_pages_def example_rules_def same_domain_def
  allowed_def rp_can_fetch_def load_robots_def new_parser_def find_all_links_def
  find_all_images_def normalize_url_def urljoin_def split_hash_0_def download_image_def
  basename_def IMAGES_DIR_def avoid_collisions.simps suffix_to_prefix Let_def

lemma example_step1:
  "crawl_step example_world (initial_state [] ''http://x.lk/a'') =
     \<lparr>visited = {|''http://x.lk/a''|},
      q = [''http://x.lk/b'', ''http://x.lk/a'', ''http://x.lk/private'', ''http://x.lk/c'', ''http://x.lk/d''],
      pages_crawled = 1,
      out_f = [\<lparr>r_url = ''http://x.lk/a'', r_title = ''A'', text_snippet = ''alpha'',
                all_images = [''http://x.lk/i.png'', ''http://x.lk/j.png''],
                downloaded_images = [(''http://x.lk/j.png'', ''images/j.png'')],
                outbound_links_count = 5\<rparr>],
      files = [''images/j.png''],
      fetched = [''http://x.lk/a'']\<rparr>"
  by (simp add: example_simps initial_state_def)

lemma example_step2:
  "crawl_step example_world
       (crawl_step example_world (initial_state [] ''http://x.lk/a'')) =
     \<lparr>visited = {|''http://x.lk/b'', ''http://x.lk/a''|},
      q = [''http://x.lk/a'', ''http://x.lk/private'', ''http://x.lk/c'', ''http://x.lk/d'', ''http://x.lk/c''],
      pages_crawled = 2,
      out_f = [\<lparr>r_url = ''http://x.lk/a'', r_title = ''A'', text_snippet = ''alpha'',
                all_images = [''http://x.lk/i.png'', ''http://x.lk/j.png''],
                downloaded_images = [(''http://x.lk/j.png'', ''images/j.png'')],
                outbound_links_count = 5\<rparr>,
               \<lparr>r_url = ''http://x.lk/b'', r_title = ''B'',
                text_snippet = replicate 10000 CHR ''b'',
                all_images = [], downloaded_images = [], outbound_links_count = 2\<rparr>],
      files = [''images/j.png''],
      fetched = [''http://x.lk/a'', ''http://x.lk/b'']\<rparr>"
  unfolding example_step1 by (simp add: example_simps)

lemma example_step3:
  "crawl_step example_world
       (crawl_step example_world
       (crawl_step example_world (initial_state [] ''http://x.lk/a''))) =
     \<lparr>visited = {|''http://x.lk/b'', ''http://x.lk/a''|},
      q = [''http://x.lk/private'', ''http://x.lk/c'', ''http://x.lk/d'', ''http://x.lk/c''],
      pages_crawled = 2,
      out_f = [\<lparr>r_url = ''http://x.lk/a'', r_title = ''A'', text_snippet = ''alpha'',
                all_images = [''http://x.lk/i.png'', ''http://x.lk/j.png''],
                downloaded_images = [(''http://x.lk/j.png'', ''images/j.png'')],
                outbound_links_count = 5\<rparr>,
               \<lparr>r_url = ''http://x.lk/b'', r_title = ''B'',
                text_snippet = replicate 10000 CHR ''b'',
                all_images = [], downloaded_images = [], outbound_links_count = 2\<rparr>],
      files = [''images/j.png''],
      fetched = [''http://x.lk/a'', ''http://x.lk/b'']\<rparr>"
  unfolding example_step2 by (simp add: example_simps)

lemma example_step4:
  "crawl_step example_world
       (crawl_step example_world
       (crawl_step example_world
       (crawl_step example_world (initial_state [] ''http://x.lk/a'')))) =
     \<lparr>visited = {|''http://x.lk/private'', ''http://x.lk/b'', ''http://x.lk/a''|},
      q = [''http://x.lk/c'', ''http://x.lk/d'', ''http://x.lk/c''],
      pages_crawled = 2,
      out_f = [\<lparr>r_url = ''http://x.lk/a'', r_title = ''A'', text_snippet = ''alpha'',
                all_images = [''http://x.lk/i.png'', ''http://x.lk/j.png''],
                downloaded_images = [(''http://x.lk/j.png'', ''images/j.png'')],
                outbound_links_count = 5\<rparr>,
               \<lparr>r_url = ''http://x.lk/b'', r_title = ''B'',
                text_snippet = replicate 10000 CHR ''b'',
                all_images = [], downloaded_images = [], outbound_links_count = 2\<rparr>],
      files = [''images/j.png''],
      fetched = [''http://x.lk/a'', ''http://x.lk/b'']\<rparr>"
  unfolding example_step3 by (simp add: example_simps)

lemma example_step5:
  "crawl_step example_world
       (crawl_step example_world
       (crawl_step example_world
       (crawl_step example_world
       (crawl_step example_world (initial_state [] ''http://x.lk/a''))))) =
     \<lparr>visited = {|''http://x.lk/c'', ''http://x.lk/private'', ''http://x.lk/b'', ''http://x.lk/a''|},
      q = [''http://x.lk/d'', ''http://x.lk/c''],
      pages_crawled = 3,
      out_f = [\<lparr>r_url = ''http://x.lk/a'', r_title = ''A'', text_snippet = ''alpha'',
                all_images = [''http://x.lk/i.png'', ''http://x.lk/j.png''],
                downloaded_images = [(''http://x.lk/j.png'', ''images/j.png'')],
                outbound_links_count = 5\<rparr>,
               \<lparr>r_url = ''http://x.lk/b'', r_title = ''B'',
                text_snippet = replicate 10000 CHR ''b'',
                all_images = [], downloaded_images = [], outbound_links_count = 2\<rparr>],
      files = [''images/j.png''],
      fetched = [''http://x.lk/a'', ''http://x.lk/b'', ''http://x.lk/c'']\<rparr>"
  unfolding example_step4 by (simp add: example_simps)

lemma example_crawl:
  "crawl example_world [] ''http://x.lk/a'' =
     crawl_step example_world
       (crawl_step example_world
       (crawl_step example_world
       (crawl_step example_world
       (crawl_step example_world (initial_state [] ''http://x.lk/a'')))))"
proof -
  have m: "MAX_PAGES example_world = 3" by (simp add: example_world_def)
  have "crawl example_world [] ''http://x.lk/a''
      = crawl_loop example_world
       (crawl_step example_world (initial_state [] ''http://x.lk/a''))"
    unfolding crawl_def by (subst crawl_loop.simps) (simp add: initial_state_def m)
  also have "\<dots> = crawl_loop example_world
       (crawl_step example_world
       (crawl_step example_world (initial_state [] ''http://x.lk/a'')))"
    by (subst crawl_loop.simps) (simp add: example_step1 m)
  also have "\<dots> = crawl_loop example_world
       (crawl_step example_world
       (crawl_step example_world
       (crawl_step example_world (initial_state [] ''http://x.lk/a''))))"
    by (subst crawl_loop.simps) (simp add: example_step2 m)
  also have "\<dots> = crawl_loop example_world
       (crawl_step example_world
       (crawl_step example_world
       (crawl_step example_world
       (crawl_step example_world (initial_state [] ''http://x.lk/a'')))))"
    by (subst crawl_loop.simps) (simp add: example_step3 m)
  also have "\<dots> = crawl_loop example_world
       (crawl_step example_world
       (crawl_step example_world
       (crawl_step example_world
       (crawl_step example_world
       (crawl_step example_world (initial_state [] ''http://x.lk/a''))))))"
    by (subst crawl_loop.simps) (simp add: example_step4 m)
  also have "\<dots> =
       crawl_step example_world
       (crawl_step example_world
       (crawl_step example_world
       (crawl_step example_world
       (crawl_step example_world (initial_state [] ''http://x.lk/a'')))))"
    by (subst crawl_loop.simps) (simp add: example_step5 m)
  finally show ?thesis .
qed

lemmas cw_example_simps =
  cw_step_def cw_example_world_def cw_example_pages_def example_rules_def same_site_def
  cw_allowed_def rp_can_fetch_def load_robots_def new_parser_def new_links_def
  normalize_link_def urljoin_def split_hash_0_def extract_page_def main_body_def
  main_images_def BASE_URL_def START_PAGES_def Let_def

lemma cw_example_step1:
  "cw_step cw_example_world cw_initial_state =
     \<lparr>cw_visited = {|''https://www.thecommonwanderer.com/blog/category/Sri+Lanka''|},
      cw_q = [''https://www.thecommonwanderer.com/sri-lanka'',
              ''https://www.thecommonwanderer.com/sri-lanka'',
              ''https://www.thecommonwanderer.com/about''],
      fout = [\<lparr>cw_url = ''https://www.thecommonwanderer.com/blog/category/Sri+Lanka'',
               cw_rtitle = ''Sri Lanka'', publish_date = ''2020-01-01'',
               cw_text = replicate 20000 CHR ''w'',
               cw_images = [''https://www.thecommonwanderer.com/s.jpg'']\<rparr>],
      cw_fetched = [''https://www.thecommonwanderer.com/blog/category/Sri+Lanka''],
      cw_refetched = [''https://www.thecommonwanderer.com/blog/category/Sri+Lanka''],
      raised = False\<rparr>"
  by (simp add: cw_example_simps cw_initial_state_def)

lemma cw_example_step2:
  "cw_step cw_example_world (cw_step cw_example_world cw_initial_state) =
     \<lparr>cw_visited = {|''https://www.thecommonwanderer.com/sri-lanka'',
                     ''https://www.thecommonwanderer.com/blog/category/Sri+Lanka''|},
      cw_q = [''https://www.thecommonwanderer.com/sri-lanka'',
              ''https://www.thecommonwanderer.com/about''],
      fout = [\<lparr>cw_url = ''https://www.thecommonwanderer.com/blog/category/Sri+Lanka'',
               cw_rtitle = ''Sri Lanka'', publish_date = ''2020-01-01'',
               cw_text = replicate 20000 CHR ''w'',
               cw_images = [''https://www.thecommonwanderer.com/s.jpg'']\<rparr>],
      cw_fetched = [''https://www.thecommonwanderer.com/blog/category/Sri+Lanka'',
                    ''https://www.thecommonwanderer.com/sri-lanka''],
      cw_refetched = [''https://www.thecommonwanderer.com/blog/category/Sri+Lanka''],
      raised = False\<rparr>"
  unfolding cw_example_step1 by (simp add: cw_example_simps)

lemma cw_example_crawl:
  "cw_crawl cw_example_world = cw_step cw_example_world (cw_step cw_example_world cw_initial_state)"
proof -
  have m: "cw_MAX_PAGES cw_example_world = 2" by (simp add: cw_example_world_def)
  have "cw_crawl cw_example_world = cw_loop cw_example_world (cw_step cw_example_world cw_initial_state)"
    unfolding cw_crawl_def
    by (subst cw_loop.simps) (simp add: cw_initial_state_def START_PAGES_def m fcard_fempty)
  also have "\<dots> = cw_loop cw_example_world
      (cw_step cw_example_world (cw_step cw_example_world cw_initial_state))"
    by (subst cw_loop.simps) (simp add: cw_example_step1 m fcard_finsert_if fcard_fempty)
  also have "\<dots> = cw_step cw_example_world (cw_step cw_example_world cw_initial_state)"
    by (subst cw_loop.simps) (simp add: cw_example_step2 m fcard_finsert_if fcard_fempty)
  finally show ?thesis .
qed

section \<open>Properties of the normalisers\<close>





lemma map_filter_member: "x \<in> set xs \<Longrightarrow> f x = Some y \<Longrightarrow> y \<in> set (List.map_filter f xs)"
  by (induction xs) (auto split: option.splits)



section \<open>Properties of the loop of scrape\_srilanka.py\<close>

text \<open>A property of the starting state that every iteration preserves holds when the
  loop ends.\<close>

lemma crawl_loop_invariant:
  assumes "P s"
    and "\<And>s. P s \<Longrightarrow> q s \<noteq> [] \<Longrightarrow> pages_crawled s < MAX_PAGES w \<Longrightarrow> P (crawl_step w s)"
  shows "P (crawl_loop w s)"
  using assms
proof (induction w s rule: crawl_loop.induct)
  case (1 w s)
  show ?case
  proof (cases "q s \<noteq> [] \<and> pages_crawled s < MAX_PAGES w")
    case True
    then have "P (crawl_step w s)" using "1.prems" by blast
    then have "P (crawl_loop w (crawl_step w s))"
      using "1.IH" [OF True] "1.prems"(2) by blast
    then show ?thesis using True by (subst crawl_loop.simps) simp
  next
    case False
    then show ?thesis using "1.prems"(1) by (subst crawl_loop.simps) auto
  qed
qed



lemma budget_step:
  "length (fetched s) = pages_crawled s \<and> pages_crawled s \<le> MAX_PAGES w \<Longrightarrow>
   pages_crawled s < MAX_PAGES w \<Longrightarrow>
   length (fetched (crawl_step w s)) = pages_crawled (crawl_step w s)
   \<and> pages_crawled (crawl_step w s) \<le> MAX_PAGES w"
  unfolding crawl_step_def
  by (cases "q s") (auto simp: Let_def split: option.split prod.split)

lemma crawl_budget:
  "length (fetched (crawl w fs start_url)) = pages_crawled (crawl w fs start_url)
   \<and> pages_crawled (crawl w fs start_url) \<le> MAX_PAGES w"
  unfolding crawl_def
  by (rule crawl_loop_invariant
      [where P = "\<lambda>s. length (fetched s) = pages_crawled s \<and> pages_crawled s \<le> MAX_PAGES w"])
     (simp_all add: budget_step initial_state_def)

lemma robots_step:
  "\<forall>u \<in> set (fetched s). allowed (rp w) u \<Longrightarrow>
   \<forall>u \<in> set (fetched (crawl_step w s)). allowed (rp w) u"
  unfolding crawl_step_def
  by (cases "q s") (auto simp: Let_def split: option.split prod.split)

lemma crawl_robots: "\<forall>u \<in> set (fetched (crawl w fs start_url)). allowed (rp w) u"
  unfolding crawl_def
  by (rule crawl_loop_invariant [where P = "\<lambda>s. \<forall>u \<in> set (fetched s). allowed (rp w) u"])
     (simp_all add: robots_step initial_state_def)

lemma snippet_step:
  "\<forall>r \<in> set (out_f s). \<exists>sp. session_get w (r_url r) = Some sp
      \<and> text_snippet r = take 10000 (visible_text sp) \<Longrightarrow>
   \<forall>r \<in> set (out_f (crawl_step w s)). \<exists>sp. session_get w (r_url r) = Some sp
      \<and> text_snippet r = take 10000 (visible_text sp)"
  unfolding crawl_step_def
  by (cases "q s") (auto simp: Let_def split: option.split prod.split)

lemma crawl_snippet:
  "\<forall>r \<in> set (out_f (crawl w fs start_url)). \<exists>sp. session_get w (r_url r) = Some sp
      \<and> text_snippet r = take 10000 (visible_text sp)"
  unfolding crawl_def
  by (rule crawl_loop_invariant [where P = "\<lambda>s. \<forall>r \<in> set (out_f s). \<exists>sp.
        session_get w (r_url r) = Some sp \<and> text_snippet r = take 10000 (visible_text sp)"])
     (simp_all add: snippet_step initial_state_def)


lemma crawl_step_denied:
  "q s = url # rest \<Longrightarrow> url |\<notin>| visited s \<Longrightarrow> same_domain w url \<Longrightarrow>
   \<not> allowed (rp w) url \<Longrightarrow>
   crawl_step w s = s\<lparr>q := rest, visited := finsert url (visited s)\<rparr>"
  by (simp add: crawl_step_def Let_def)


text \<open>The image loop saves exactly the images that robots.txt allows and whose download
  succeeds; the path it hands out did not exist before.\<close>

lemma avoid_collisions_fresh: "avoid_collisions fs base ext i out_path \<notin> set fs"
proof (induction fs base ext i out_path rule: avoid_collisions.induct)
  case (1 fs base ext i out_path)
  then show ?case by (subst avoid_collisions.simps) auto
qed

lemma download_image_saved:
  "(case fst (download_image w url fs) of None \<Rightarrow> image_get w url \<noteq> Saved
    | Some p \<Rightarrow> image_get w url = Saved \<and> p \<notin> set fs)"
  by (cases "image_get w url")
     (simp_all add: download_image_def Let_def avoid_collisions_fresh split: prod.split)

lemma download_images_urls:
  "map fst (fst (download_images w images downloaded fs)) =
     map fst downloaded @ filter (\<lambda>u. allowed (rp w) u \<and> image_get w u = Saved) images"
proof (induction images arbitrary: downloaded fs)
  case Nil
  show ?case by simp
next
  case (Cons img_url images)
  show ?case
  proof (cases "allowed (rp w) img_url")
    case False
    then show ?thesis using Cons.IH by simp
  next
    case True
    obtain r fs' where d: "download_image w img_url fs = (r, fs')"
      by (cases "download_image w img_url fs")
    with download_image_saved [of w img_url fs]
    have "(case r of None \<Rightarrow> image_get w img_url \<noteq> Saved
           | Some p \<Rightarrow> image_get w img_url = Saved \<and> p \<notin> set fs)"
      by simp
    then show ?thesis using True d Cons.IH by (cases r) simp_all
  qed
qed

section \<open>Properties of the loop of thecommonwanderer.py\<close>

lemma cw_loop_invariant:
  assumes "P s"
    and "\<And>s. P s \<Longrightarrow> \<not> raised s \<Longrightarrow> cw_q s \<noteq> [] \<Longrightarrow>
           fcard (cw_visited s) < cw_MAX_PAGES w \<Longrightarrow> P (cw_step w s)"
  shows "P (cw_loop w s)"
  using assms
proof (induction w s rule: cw_loop.induct)
  case (1 w s)
  show ?case
  proof (cases "\<not> raised s \<and> cw_q s \<noteq> [] \<and> fcard (cw_visited s) < cw_MAX_PAGES w")
    case True
    then have "P (cw_step w s)" using "1.prems" by blast
    then have "P (cw_loop w (cw_step w s))"
      using "1.IH" [OF True] "1.prems"(2) by blast
    then show ?thesis using True by (subst cw_loop.simps) simp
  next
    case False
    then show ?thesis using "1.prems"(1) by (subst cw_loop.simps) auto
  qed
qed

lemma extract_page_url: "extract_page w url = Some r \<Longrightarrow> cw_url r = url"
  by (auto simp: extract_page_def split: option.splits)

lemma extract_page_text:
  "extract_page w url = Some r \<Longrightarrow>
   cw_url r = url \<and> (\<exists>sp. cw_session_get w url = Some sp
     \<and> cw_text r = take 20000 (main_body sp))"
  by (auto simp: extract_page_def split: option.splits)

lemma cw_fetched_once_step: "cw_fetched_once s \<Longrightarrow> cw_fetched_once (cw_step w s)"
  unfolding cw_fetched_once_def cw_step_def
  by (cases "cw_q s")
     (auto simp: Let_def dest: extract_page_url split: option.split bool.split)

lemma cw_crawl_fetched_once: "cw_fetched_once (cw_crawl w)"
  unfolding cw_crawl_def
proof (rule cw_loop_invariant [where P = cw_fetched_once])
  show "cw_fetched_once cw_initial_state"
    by (simp add: cw_fetched_once_def cw_initial_state_def)
qed (rule cw_fetched_once_step)

lemma cw_visited_step:
  "fcard (cw_visited s) < n \<Longrightarrow> fcard (cw_visited (cw_step w s)) \<le> n"
  unfolding cw_step_def
  by (cases "cw_q s")
     (auto simp: Let_def fcard_finsert_if split: option.split bool.split)

lemma cw_crawl_visited: "fcard (cw_visited (cw_crawl w)) \<le> cw_MAX_PAGES w"
  unfolding cw_crawl_def
  by (rule cw_loop_invariant [where P = "\<lambda>s. fcard (cw_visited s) \<le> cw_MAX_PAGES w"])
     (simp_all add: cw_visited_step fcard_fempty cw_initial_state_def)

lemma cw_crawl_budget: "length (cw_fetched (cw_crawl w)) \<le> cw_MAX_PAGES w"
proof -
  have o: "cw_fetched_once (cw_crawl w)" by (rule cw_crawl_fetched_once)
  then have "length (cw_fetched (cw_crawl w)) = card (set (cw_fetched (cw_crawl w)))"
    by (simp add: cw_fetched_once_def distinct_card)
  also have "\<dots> \<le> card (fset (cw_visited (cw_crawl w)))"
    using o by (intro card_mono) (simp_all add: cw_fetched_once_def)
  also have "\<dots> = fcard (cw_visited (cw_crawl w))" by (simp add: fcard.rep_eq)
  finally show ?thesis using cw_crawl_visited [of w] by simp
qed

lemma cw_robots_step:
  "\<forall>u \<in> set (cw_fetched s). cw_allowed (cw_rp w) u = Some True \<Longrightarrow>
   \<forall>u \<in> set (cw_fetched (cw_step w s)). cw_allowed (cw_rp w) u = Some True"
  unfolding cw_step_def
  by (cases "cw_q s") (auto simp: Let_def split: option.split bool.split)

lemma cw_crawl_robots: "\<forall>u \<in> set (cw_fetched (cw_crawl w)). cw_allowed (cw_rp w) u = Some True"
  unfolding cw_crawl_def
  by (rule cw_loop_invariant
      [where P = "\<lambda>s. \<forall>u \<in> set (cw_fetched s). cw_allowed (cw_rp w) u = Some True"])
     (simp_all add: cw_robots_step cw_initial_state_def)

lemma cw_text_step:
  "\<forall>r \<in> set (fout s). \<exists>sp. cw_session_get w (cw_url r) = Some sp
      \<and> cw_text r = take 20000 (main_body sp) \<Longrightarrow>
   \<forall>r \<in> set (fout (cw_step w s)). \<exists>sp. cw_session_get w (cw_url r) = Some sp
      \<and> cw_text r = take 20000 (main_body sp)"
  unfolding cw_step_def
  by (cases "cw_q s")
     (auto simp: Let_def dest!: extract_page_text split: option.split bool.split)

lemma cw_crawl_text:
  "\<forall>r \<in> set (fout (cw_crawl w)). \<exists>sp. cw_session_get w (cw_url r) = Some sp
      \<and> cw_text r = take 20000 (main_body sp)"
  unfolding cw_crawl_def
  by (rule cw_loop_invariant [where P = "\<lambda>s. \<forall>r \<in> set (fout s). \<exists>sp.
        cw_session_get w (cw_url r) = Some sp \<and> cw_text r = take 20000 (main_body sp)"])
     (simp_all add: cw_text_step cw_initial_state_def)


lemma cw_step_denied:
  "cw_q s = url # rest \<Longrightarrow> cw_allowed (cw_rp w) url = Some False \<Longrightarrow>
   cw_step w s = s\<lparr>cw_q := rest, cw_visited := finsert url (cw_visited s)\<rparr>"
  by (simp add: cw_step_def Let_def)



section \<open>The claims\<close>




text \<open>
  C2.  The crawl loops are total functions, so every crawl ends.  When it has ended, the
  first crawler has handed at most \<open>MAX_PAGES\<close> URLs to the page fetcher and the second at
  most \<open>MAX_PAGES\<close> URLs to \<open>extract_page\<close>, whatever the pages link to.  The second
  crawler requests a page a second time to read its links; that request only goes to a
  page it has just fetched, never to a new one.
\<close>

theorem page_budget:
  "length (fetched (crawl w fs start_url)) \<le> MAX_PAGES w
   \<and> length (cw_fetched (cw_crawl cw)) \<le> cw_MAX_PAGES cw
   \<and> set (cw_refetched (cw_crawl cw)) \<subseteq> set (cw_fetched (cw_crawl cw))"
proof -
  have "length (fetched (crawl w fs start_url)) \<le> MAX_PAGES w"
    using crawl_budget [of w fs start_url] by simp
  moreover have "length (cw_fetched (cw_crawl cw)) \<le> cw_MAX_PAGES cw"
    by (rule cw_crawl_budget)
  moreover have "set (cw_refetched (cw_crawl cw)) \<subseteq> set (cw_fetched (cw_crawl cw))"
    using cw_crawl_fetched_once [of cw] by (simp add: cw_fetched_once_def)
  ultimately show ?thesis by blast
qed

text \<open>On the first small site the budget of three pages is used up while \<open>d\<close>, which was
  never visited, still waits in the queue.\<close>

theorem page_budget_witness:
  "length (fetched (crawl example_world [] ''http://x.lk/a'')) \<le> 3
   \<and> q (crawl example_world [] ''http://x.lk/a'') = [''http://x.lk/d'', ''http://x.lk/c'']
   \<and> ''http://x.lk/d'' |\<notin>| visited (crawl example_world [] ''http://x.lk/a'')
   \<and> length (cw_fetched (cw_crawl cw_example_world)) \<le> 2"
proof -
  note th = page_budget [of example_world "[]" "''http://x.lk/a''" cw_example_world]
  have 1: "length (fetched (crawl example_world [] ''http://x.lk/a'')) \<le> 3"
    using th by (simp add: example_world_def)
  have 2: "q (crawl example_world [] ''http://x.lk/a'') = [''http://x.lk/d'', ''http://x.lk/c'']"
    by (simp add: example_crawl example_step5)
  have 3: "''http://x.lk/d'' |\<notin>| visited (crawl example_world [] ''http://x.lk/a'')"
    by (simp add: example_crawl example_step5)
  have 4: "length (cw_fetched (cw_crawl cw_example_world)) \<le> 2"
    using th by (simp add: cw_example_world_def)
  from 1 2 3 4 show ?thesis by blast
qed

text \<open>
  C5.  Every URL that a crawl has handed to the page fetcher is one that the robots gate
  permits, in both crawlers (for the second, the second request of a page included).  An
  iteration that pops a URL the gate denies fetches nothing and goes on with the rest of
  the queue.
\<close>

theorem robots_compliance:
  "(\<forall>u \<in> set (fetched (crawl w fs start_url)). allowed (rp w) u)
   \<and> (\<forall>u \<in> set (cw_fetched (cw_crawl cw)) \<union> set (cw_refetched (cw_crawl cw)).
         cw_allowed (cw_rp cw) u = Some True)
   \<and> (q s = url # rest \<and> url |\<notin>| visited s \<and> same_domain w url \<and> \<not> allowed (rp w) url \<longrightarrow>
         fetched (crawl_step w s) = fetched s \<and> q (crawl_step w s) = rest)
   \<and> (cw_q t = url # rest \<and> cw_allowed (cw_rp cw) url = Some False \<longrightarrow>
         cw_fetched (cw_step cw t) = cw_fetched t \<and> cw_refetched (cw_step cw t) = cw_refetched t
         \<and> cw_q (cw_step cw t) = rest \<and> raised (cw_step cw t) = raised t)"
proof -
  have a: "\<forall>u \<in> set (fetched (crawl w fs start_url)). allowed (rp w) u"
    by (rule crawl_robots)
  have "set (cw_refetched (cw_crawl cw)) \<subseteq> set (cw_fetched (cw_crawl cw))"
    using cw_crawl_fetched_once [of cw] by (simp add: cw_fetched_once_def)
  with cw_crawl_robots [of cw]
  have b: "\<forall>u \<in> set (cw_fetched (cw_crawl cw)) \<union> set (cw_refetched (cw_crawl cw)).
      cw_allowed (cw_rp cw) u = Some True"
    by blast
  have c: "q s = url # rest \<and> url |\<notin>| visited s \<and> same_domain w url \<and> \<not> allowed (rp w) url \<longrightarrow>
      fetched (crawl_step w s) = fetched s \<and> q (crawl_step w s) = rest"
    using crawl_step_denied [of s url rest w] by auto
  have d: "cw_q t = url # rest \<and> cw_allowed (cw_rp cw) url = Some False \<longrightarrow>
      cw_fetched (cw_step cw t) = cw_fetched t \<and> cw_refetched (cw_step cw t) = cw_refetched t
      \<and> cw_q (cw_step cw t) = rest \<and> raised (cw_step cw t) = raised t"
    using cw_step_denied [of t url rest cw] by auto
  from a b c d show ?thesis by blast
qed

text \<open>On the first small site the disallowed path is popped and skipped; the three URLs
  that were fetched are all permitted.\<close>

theorem robots_compliance_witness:
  "fetched (crawl example_world [] ''http://x.lk/a'')
     = [''http://x.lk/a'', ''http://x.lk/b'', ''http://x.lk/c'']
   \<and> allowed (rp example_world) ''http://x.lk/c''
   \<and> \<not> allowed (rp example_world) ''http://x.lk/private''
   \<and> ''http://x.lk/private'' |\<in>| visited (crawl example_world [] ''http://x.lk/a'')
   \<and> fetched (crawl_step example_world (crawl_step example_world (crawl_step example_world
        (crawl_step example_world (initial_state [] ''http://x.lk/a'')))))
       = [''http://x.lk/a'', ''http://x.lk/b'']
   \<and> cw_allowed (cw_rp cw_example_world) ''https://www.thecommonwanderer.com/sri-lanka''
       = Some True"
proof -
  let ?s = "\<lparr>visited = {|''http://x.lk/b'', ''http://x.lk/a''|},
      q = [''http://x.lk/private'', ''http://x.lk/c'', ''http://x.lk/d'', ''http://x.lk/c''],
      pages_crawled = 2,
      out_f = [\<lparr>r_url = ''http://x.lk/a'', r_title = ''A'', text_snippet = ''alpha'',
                all_images = [''http://x.lk/i.png'', ''http://x.lk/j.png''],
                downloaded_images = [(''http://x.lk/j.png'', ''images/j.png'')],
                outbound_links_count = 5\<rparr>,
               \<lparr>r_url = ''http://x.lk/b'', r_title = ''B'',
                text_snippet = replicate 10000 CHR ''b'',
                all_images = [], downloaded_images = [], outbound_links_count = 2\<rparr>],
      files = [''images/j.png''],
      fetched = [''http://x.lk/a'', ''http://x.lk/b'']\<rparr>"
  note th = robots_compliance [of example_world "[]" "''http://x.lk/a''" cw_example_world ?s
      "''http://x.lk/private''" "[''http://x.lk/c'', ''http://x.lk/d'', ''http://x.lk/c'']"]
  have 1: "fetched (crawl example_world [] ''http://x.lk/a'')
      = [''http://x.lk/a'', ''http://x.lk/b'', ''http://x.lk/c'']"
    by (simp add: example_crawl example_step5)
  have 2: "allowed (rp example_world) ''http://x.lk/c''"
    using th unfolding 1 by simp
  have 3: "\<not> allowed (rp example_world) ''http://x.lk/private''"
    by (simp add: example_simps)
  have 4: "''http://x.lk/private'' |\<in>| visited (crawl example_world [] ''http://x.lk/a'')"
    by (simp add: example_crawl example_step5)
  have h: "q ?s = ''http://x.lk/private'' # [''http://x.lk/c'', ''http://x.lk/d'', ''http://x.lk/c'']"
    "''http://x.lk/private'' |\<notin>| visited ?s"
    "same_domain example_world ''http://x.lk/private''"
    by (simp_all add: example_simps)
  from th h 3 have "fetched (crawl_step example_world ?s) = [''http://x.lk/a'', ''http://x.lk/b'']"
    by simp
  then have 5: "fetched (crawl_step example_world (crawl_step example_world
      (crawl_step example_world (crawl_step example_world (initial_state [] ''http://x.lk/a'')))))
      = [''http://x.lk/a'', ''http://x.lk/b'']"
    unfolding example_step3 .
  have 6: "cw_fetched (cw_crawl cw_example_world)
      = [''https://www.thecommonwanderer.com/blog/category/Sri+Lanka'',
         ''https://www.thecommonwanderer.com/sri-lanka'']"
    by (simp add: cw_example_crawl cw_example_step2)
  have 7: "cw_allowed (cw_rp cw_example_world) ''https://www.thecommonwanderer.com/sri-lanka''
      = Some True"
    using th unfolding 6 by simp
  from 1 2 3 4 5 7 show ?thesis by blast
qed




text \<open>
  When the server answers the request for robots.txt with an HTTP error status, \<open>read\<close>
  raises nothing and the library parser decides: 401 and 403 deny every URL, any other
  4xx status permits every URL, and any other error status leaves the parser unread, which
  denies every URL.  The three gates agree on this.
\<close>

lemma robots_http_error:
  "can_fetch_url (HTTPError code) url ua = (400 \<le> code \<and> code < 500 \<and> code \<noteq> 401 \<and> code \<noteq> 403)"
  "can_fetch (HTTPError code) url ua = (400 \<le> code \<and> code < 500 \<and> code \<noteq> 401 \<and> code \<noteq> 403)"
  "allowed (load_robots (HTTPError code)) url
     = (400 \<le> code \<and> code < 500 \<and> code \<noteq> 401 \<and> code \<noteq> 403)"
  by (auto simp: can_fetch_url_def can_fetch_def allowed_def load_robots_def rp_can_fetch_def
      new_parser_def)




text \<open>
  C7.  Take an iteration of the first crawler that fetches and parses a page.  Whatever
  the downloads of its images do, the iteration appends exactly one line for the
  page to the output; the line lists every image reference of the page under
  \<open>all_images\<close>; and \<open>downloaded_images\<close> gives a saved path to exactly the images that
  robots.txt allows and whose own download succeeded, so that a failed image has no path
  and takes no path from another image.
\<close>

theorem image_failure_isolated:
  assumes "q s = url # rest" and "url |\<notin>| visited s" and "same_domain w url"
    and "allowed (rp w) url" and "session_get w url = Some sp"
  shows "\<exists>dl. out_f (crawl_step w s) = out_f s @
           [\<lparr>r_url = url, r_title = title_tag sp,
             text_snippet = take 10000 (visible_text sp),
             all_images = find_all_images w sp url, downloaded_images = dl,
             outbound_links_count = length (find_all_links w sp url)\<rparr>]
         \<and> map fst dl =
             (if DOWNLOAD_IMAGES w
              then filter (\<lambda>u. allowed (rp w) u \<and> image_get w u = Saved) (find_all_images w sp url)
              else [])"
proof (cases "DOWNLOAD_IMAGES w \<and> find_all_images w sp url \<noteq> []")
  case True
  obtain dl fs' where d: "download_images w (find_all_images w sp url) [] (files s) = (dl, fs')"
    by (cases "download_images w (find_all_images w sp url) [] (files s)")
  have "map fst dl =
      filter (\<lambda>u. allowed (rp w) u \<and> image_get w u = Saved) (find_all_images w sp url)"
    using download_images_urls [of w "find_all_images w sp url" "[]" "files s"] d by simp
  then show ?thesis using assms True d by (simp add: crawl_step_def Let_def)
next
  case False
  then have "(if DOWNLOAD_IMAGES w
      then filter (\<lambda>u. allowed (rp w) u \<and> image_get w u = Saved) (find_all_images w sp url)
      else []) = []"
    by auto
  then show ?thesis using assms False by (simp add: crawl_step_def Let_def)
qed

text \<open>On the first small site the first image of page \<open>a\<close> cannot be fetched: the line
  for \<open>a\<close> is written, lists both images, and carries a path for the second image only.\<close>

theorem image_failure_isolated_witness:
  "image_get example_world ''http://x.lk/i.png'' = GetFails
   \<and> out_f (crawl_step example_world (initial_state [] ''http://x.lk/a'')) =
       [\<lparr>r_url = ''http://x.lk/a'', r_title = ''A'', text_snippet = ''alpha'',
         all_images = [''http://x.lk/i.png'', ''http://x.lk/j.png''],
         downloaded_images = [(''http://x.lk/j.png'', ''images/j.png'')],
         outbound_links_count = 5\<rparr>]"
proof -
  have 1: "image_get example_world ''http://x.lk/i.png'' = GetFails"
    by (simp add: example_world_def)
  have h: "q (initial_state [] ''http://x.lk/a'') = ''http://x.lk/a'' # []"
    "''http://x.lk/a'' |\<notin>| visited (initial_state [] ''http://x.lk/a'')"
    "same_domain example_world ''http://x.lk/a''"
    "allowed (rp example_world) ''http://x.lk/a''"
    "session_get example_world ''http://x.lk/a'' = example_pages ''http://x.lk/a''"
    by (simp_all add: initial_state_def example_simps)
  have p: "example_pages ''http://x.lk/a'' =
      Some \<lparr>title_tag = ''A'', visible_text = ''alpha'',
            img_srcs = [Some ''http://x.lk/i.png'', Some ''http://x.lk/j.png'', None],
            hrefs = [''http://x.lk/b'', ''#top'', ''http://x.lk/private'', ''http://x.lk/c'',
                     ''http://x.lk/d'', ''mailto:x@x.lk'']\<rparr>"
    by (simp add: example_pages_def)
  from image_failure_isolated [OF h(1-4) h(5) [unfolded p]]
  obtain dl where "out_f (crawl_step example_world (initial_state [] ''http://x.lk/a'')) =
      out_f (initial_state [] ''http://x.lk/a'') @
        [\<lparr>r_url = ''http://x.lk/a'', r_title = ''A'', text_snippet = ''alpha'',
          all_images = [''http://x.lk/i.png'', ''http://x.lk/j.png''], downloaded_images = dl,
          outbound_links_count = 5\<rparr>]"
    by (auto simp: example_simps)
  then have 2: "out_f (crawl_step example_world (initial_state [] ''http://x.lk/a'')) =
      [\<lparr>r_url = ''http://x.lk/a'', r_title = ''A'', text_snippet = ''alpha'',
        all_images = [''http://x.lk/i.png'', ''http://x.lk/j.png''],
        downloaded_images = [(''http://x.lk/j.png'', ''images/j.png'')],
        outbound_links_count = 5\<rparr>]"
    by (simp add: example_step1)
  from 1 2 show ?thesis by blast
qed

text \<open>
  C8.  A link that consists of a fragment only is not rejected: both normalisers return
  the base URL itself.  In the first crawler the page that carries such a link is
  therefore appended to the queue again while it is being processed (it is added to the
  visited set only afterwards), and the copy is dropped when it is popped.  The second
  crawler adds the page to the visited set before it reads the links, so there the copy
  is not appended.
\<close>

theorem fragment_only_href:
  "normalize_url rest' base (Some (CHR ''#'' # frag)) = Some base
   \<and> normalize_link rest' base (CHR ''#'' # frag) = Some base
   \<and> (q s = url # rest \<and> url \<noteq> [] \<and> url |\<notin>| visited s \<and> same_domain w url
        \<and> allowed (rp w) url \<and> session_get w url = Some sp
        \<and> CHR ''#'' # frag \<in> set (hrefs sp) \<longrightarrow>
      url \<in> set (q (crawl_step w s)) \<and> url |\<in>| visited (crawl_step w s))"
proof -
  have a: "normalize_url rest' base (Some (CHR ''#'' # frag)) = Some base"
    by (simp add: normalize_url_def split_hash_0_def urljoin_def)
  have b: "normalize_link rest' base (CHR ''#'' # frag) = Some base"
    by (simp add: normalize_link_def split_hash_0_def urljoin_def)
  have c: "url \<in> set (q (crawl_step w s)) \<and> url |\<in>| visited (crawl_step w s)"
    if h: "q s = url # rest" "url \<noteq> []" "url |\<notin>| visited s" "same_domain w url"
      "allowed (rp w) url" "session_get w url = Some sp" "CHR ''#'' # frag \<in> set (hrefs sp)"
  proof -
    have "normalize_url (resolve w) url (Some (CHR ''#'' # frag)) = Some url"
      by (simp add: normalize_url_def split_hash_0_def urljoin_def)
    with h(2,4,7) have "url \<in> set (find_all_links w sp url)"
      unfolding find_all_links_def set_remdups
      by (intro map_filter_member [of "CHR ''#'' # frag"]) simp_all
    with h show ?thesis by (simp add: crawl_step_def Let_def split: prod.split)
  qed
  from a b c show ?thesis by blast
qed

text \<open>On the first small site page \<open>a\<close> carries the link \<open>#top\<close>: after the iteration that
  processes \<open>a\<close>, \<open>a\<close> is in the queue again.\<close>

theorem fragment_only_href_witness:
  "normalize_url (\<lambda>base url. url) ''http://x.lk/a'' (Some ''#top'') = Some ''http://x.lk/a''
   \<and> ''http://x.lk/a'' \<in> set (q (crawl_step example_world (initial_state [] ''http://x.lk/a'')))"
proof -
  note th = fragment_only_href [of "\<lambda>base url. url" "''http://x.lk/a''" "''top''"
      "initial_state [] ''http://x.lk/a''" "''http://x.lk/a''" "[]" example_world
      "\<lparr>title_tag = ''A'', visible_text = ''alpha'',
        img_srcs = [Some ''http://x.lk/i.png'', Some ''http://x.lk/j.png'', None],
        hrefs = [''http://x.lk/b'', ''#top'', ''http://x.lk/private'', ''http://x.lk/c'',
                 ''http://x.lk/d'', ''mailto:x@x.lk'']\<rparr>"]
  have 1: "normalize_url (\<lambda>base url. url) ''http://x.lk/a'' (Some ''#top'') = Some ''http://x.lk/a''"
    using th by blast
  have h: "q (initial_state [] ''http://x.lk/a'') = ''http://x.lk/a'' # []"
    "''http://x.lk/a'' |\<notin>| visited (initial_state [] ''http://x.lk/a'')"
    "same_domain example_world ''http://x.lk/a''"
    "allowed (rp example_world) ''http://x.lk/a''"
    "session_get example_world ''http://x.lk/a'' =
      Some \<lparr>title_tag = ''A'', visible_text = ''alpha'',
            img_srcs = [Some ''http://x.lk/i.png'', Some ''http://x.lk/j.png'', None],
            hrefs = [''http://x.lk/b'', ''#top'', ''http://x.lk/private'', ''http://x.lk/c'',
                     ''http://x.lk/d'', ''mailto:x@x.lk'']\<rparr>"
    by (simp_all add: initial_state_def example_simps)
  have 2: "''http://x.lk/a'' \<in> set (q (crawl_step example_world (initial_state [] ''http://x.lk/a'')))"
    using th h by simp
  from 1 2 show ?thesis by blast
qed

text \<open>
  C9.  Every line that the first crawler has written carries as \<open>text_snippet\<close> the first
  10000 characters of the visible text of its page, and every line that the second
  crawler has written carries as \<open>text\<close> the first 20000 characters of the text of the
  main region of its page: never more than that, and always a prefix of the extracted
  text.
\<close>

theorem text_truncated:
  "(\<forall>r \<in> set (out_f (crawl w fs start_url)).
      length (text_snippet r) \<le> 10000
      \<and> (\<exists>sp. session_get w (r_url r) = Some sp
            \<and> text_snippet r = take 10000 (visible_text sp)
            \<and> prefix (text_snippet r) (visible_text sp)))
   \<and> (\<forall>r \<in> set (fout (cw_crawl cw)).
      length (cw_text r) \<le> 20000
      \<and> (\<exists>sp. cw_session_get cw (cw_url r) = Some sp
            \<and> cw_text r = take 20000 (main_body sp)
            \<and> prefix (cw_text r) (main_body sp)))"
proof -
  have a: "length (text_snippet r) \<le> 10000
      \<and> (\<exists>sp. session_get w (r_url r) = Some sp
            \<and> text_snippet r = take 10000 (visible_text sp)
            \<and> prefix (text_snippet r) (visible_text sp))"
    if "r \<in> set (out_f (crawl w fs start_url))" for r
  proof -
    from crawl_snippet [of w fs start_url] that
    obtain sp where sp: "session_get w (r_url r) = Some sp"
      "text_snippet r = take 10000 (visible_text sp)"
      by blast
    then show ?thesis by (auto simp: take_is_prefix)
  qed
  have b: "length (cw_text r) \<le> 20000
      \<and> (\<exists>sp. cw_session_get cw (cw_url r) = Some sp
            \<and> cw_text r = take 20000 (main_body sp)
            \<and> prefix (cw_text r) (main_body sp))"
    if "r \<in> set (fout (cw_crawl cw))" for r
  proof -
    from cw_crawl_text [of cw] that
    obtain sp where sp: "cw_session_get cw (cw_url r) = Some sp"
      "cw_text r = take 20000 (main_body sp)"
      by blast
    then show ?thesis by (auto simp: take_is_prefix)
  qed
  from a b show ?thesis by blast
qed

text \<open>On the small sites page \<open>b\<close> has 10001 characters of text and the first start page
  has 20001: the lines written for them carry 10000 and 20000.\<close>

theorem text_truncated_witness:
  "map (\<lambda>r. length (text_snippet r)) (out_f (crawl example_world [] ''http://x.lk/a''))
     = [5, 10000]
   \<and> length (visible_text (the (example_pages ''http://x.lk/b''))) = 10001
   \<and> map (\<lambda>r. length (cw_text r)) (fout (cw_crawl cw_example_world)) = [20000]"
proof -
  note th = text_truncated [of example_world "[]" "''http://x.lk/a''" cw_example_world]
  have 1: "map (\<lambda>r. length (text_snippet r)) (out_f (crawl example_world [] ''http://x.lk/a''))
      = [5, 10000]"
    using th by (simp add: example_crawl example_step5)
  have 2: "length (visible_text (the (example_pages ''http://x.lk/b''))) = 10001"
    by (simp add: example_pages_def)
  have 3: "map (\<lambda>r. length (cw_text r)) (fout (cw_crawl cw_example_world)) = [20000]"
    using th by (simp add: cw_example_crawl cw_example_step2)
  from 1 2 3 show ?thesis by blast
qed

text \<open>
  C10.  When the first crawler pops a URL that is new, on the site, and denied by the
  robots check, the iteration adds the URL to the visited set and removes it from the
  queue, and changes nothing else: the page counter, the output, the image files and the
  log of fetched URLs stay as they were.  When the URL is popped again it is skipped as
  visited.
\<close>

theorem robots_denied_frame:
  assumes "q s = url # rest" and "url |\<notin>| visited s" and "same_domain w url"
    and "\<not> allowed (rp w) url"
  shows "crawl_step w s = s\<lparr>q := rest, visited := finsert url (visited s)\<rparr>
       \<and> visited (crawl_step w s) = finsert url (visited s)
       \<and> pages_crawled (crawl_step w s) = pages_crawled s
       \<and> out_f (crawl_step w s) = out_f s
       \<and> fetched (crawl_step w s) = fetched s
       \<and> crawl_step w ((crawl_step w s)\<lparr>q := url # rest'\<rparr>) = (crawl_step w s)\<lparr>q := rest'\<rparr>"
proof -
  have e: "crawl_step w s = s\<lparr>q := rest, visited := finsert url (visited s)\<rparr>"
    using assms by (rule crawl_step_denied)
  have "crawl_step w ((crawl_step w s)\<lparr>q := url # rest'\<rparr>) = (crawl_step w s)\<lparr>q := rest'\<rparr>"
    unfolding e by (simp add: crawl_step_def Let_def)
  with e show ?thesis by simp
qed

text \<open>On the first small site the disallowed path is popped in the fourth iteration.\<close>

theorem robots_denied_frame_witness:
  "visited (crawl_step example_world (crawl_step example_world (crawl_step example_world
      (crawl_step example_world (initial_state [] ''http://x.lk/a'')))))
     = {|''http://x.lk/private'', ''http://x.lk/b'', ''http://x.lk/a''|}
   \<and> pages_crawled (crawl_step example_world (crawl_step example_world
        (crawl_step example_world (crawl_step example_world (initial_state [] ''http://x.lk/a'')))))
     = 2"
proof -
  let ?s = "\<lparr>visited = {|''http://x.lk/b'', ''http://x.lk/a''|},
      q = [''http://x.lk/private'', ''http://x.lk/c'', ''http://x.lk/d'', ''http://x.lk/c''],
      pages_crawled = 2,
      out_f = [\<lparr>r_url = ''http://x.lk/a'', r_title = ''A'', text_snippet = ''alpha'',
                all_images = [''http://x.lk/i.png'', ''http://x.lk/j.png''],
                downloaded_images = [(''http://x.lk/j.png'', ''images/j.png'')],
                outbound_links_count = 5\<rparr>,
               \<lparr>r_url = ''http://x.lk/b'', r_title = ''B'',
                text_snippet = replicate 10000 CHR ''b'',
                all_images = [], downloaded_images = [], outbound_links_count = 2\<rparr>],
      files = [''images/j.png''],
      fetched = [''http://x.lk/a'', ''http://x.lk/b'']\<rparr>"
  have h: "q ?s = ''http://x.lk/private'' # [''http://x.lk/c'', ''http://x.lk/d'', ''http://x.lk/c'']"
    "''http://x.lk/private'' |\<notin>| visited ?s"
    "same_domain example_world ''http://x.lk/private''"
    "\<not> allowed (rp example_world) ''http://x.lk/private''"
    by (simp_all add: example_simps)
  from robots_denied_frame [OF h]
  have "visited (crawl_step example_world ?s)
        = {|''http://x.lk/private'', ''http://x.lk/b'', ''http://x.lk/a''|}
      \<and> pages_crawled (crawl_step example_world ?s) = 2"
    by simp
  then show ?thesis unfolding example_step3 .
qed

end
